theory Spec2Isabelle
  imports Main "HOL-Library.Monad_Syntax"
begin

section \<open>The gap buffer of \<^verbatim>\<open>gap_buffer.hpp\<close>\<close>

text \<open>
  The class \<^verbatim>\<open>gap_buffer<T>\<close> owns a \<^verbatim>\<open>std::vector<T> _buf\<close> and a
  \<^verbatim>\<open>std::ranges::subrange\<close> of iterators \<^verbatim>\<open>_gap\<close> into it. The model keeps the vector as
  a list and the two iterators of the gap as the offsets that \<^verbatim>\<open>gap_id()\<close> computes
  (\<^verbatim>\<open>gb - _buf.begin()\<close>, \<^verbatim>\<open>ge - _buf.begin()\<close>). All index arithmetic of the source is on
  \<^verbatim>\<open>int64_t\<close>; it is modelled on \<open>int\<close>, so a difference such as
  \<^verbatim>\<open>ge + count - buf_size()\<close> may be negative exactly as in the source. Sizes of a vector
  stay far below \<open>2 ^ 63\<close>, so sums and differences of sizes and in-range indices do
  not overflow. The unary minus applied to a count does overflow at the least
  \<^verbatim>\<open>int64_t\<close> value; it is modelled by \<open>int64_neg\<close> below.

  Undefined behaviour of the source (an iterator formed outside \<^verbatim>\<open>[begin, end]\<close> of the
  vector, a subrange whose begin lies after its end, a copy that reads or writes outside
  the vector, a dereference outside the vector) and a failing \<^verbatim>\<open>assert\<close> are the value
  \<open>None\<close> of the model.

  The header exists in three revisions. The model follows the one whose mutating members
  return \<^verbatim>\<open>auto&\<close> and whose \<^verbatim>\<open>remove\<close> clamps a negative count to \<^verbatim>\<open>index\<close>; growth, cursor
  relocation, \<^verbatim>\<open>insert\<close>, \<^verbatim>\<open>back\<close>, \<^verbatim>\<open>clear\<close> and \<^verbatim>\<open>remove\<close> with a non-negative count
  are the same in the revision that carries the doc comments. Where that revision
  differs and it matters (\<^verbatim>\<open>front\<close>, and \<^verbatim>\<open>remove\<close> with a negative count), it is
  modelled under a name ending in \<open>_rev2\<close>.
\<close>

record 'a gap_buffer =
  buf :: "'a list"
  gap_begin :: int
  gap_end :: int

text \<open>The default member initialisers: an empty vector, the gap \<^verbatim>\<open>{_buf.begin(), _buf.end()}\<close>.\<close>

definition gap_buffer_init :: "'a gap_buffer" where
  "gap_buffer_init = \<lparr>buf = [], gap_begin = 0, gap_end = 0\<rparr>"

definition buf_size :: "'a gap_buffer \<Rightarrow> int" where
  "buf_size s = int (length (buf s))"

definition gap_id :: "'a gap_buffer \<Rightarrow> int \<times> int" where
  "gap_id s = (gap_begin s, gap_end s)"

definition gap_size :: "'a gap_buffer \<Rightarrow> int" where
  "gap_size s = gap_end s - gap_begin s"

subsection \<open>The library calls the class uses\<close>

text \<open>
  \<^verbatim>\<open>-x\<close> on an \<^verbatim>\<open>int64_t\<close>: the negation of the least value \<open>- 2 ^ 63\<close> is not
  representable, the signed overflow is undefined behaviour.
\<close>

definition int64_neg :: "int \<Rightarrow> int option" where
  "int64_neg x = (if x \<le> - (2 ^ 63) then None else Some (- x))"

text \<open>
  \<^verbatim>\<open>gap_t{i, j}\<close> builds a subrange from two iterators of the vector \<open>b\<close>: both have to lie
  in \<^verbatim>\<open>[begin, end]\<close> and \<open>i\<close> must not be after \<open>j\<close>.
\<close>

definition gap_t :: "'a list \<Rightarrow> int \<Rightarrow> int \<Rightarrow> (int \<times> int) option" where
  "gap_t b i j = (if 0 \<le> i \<and> i \<le> j \<and> j \<le> int (length b) then Some (i, j) else None)"

text \<open>
  \<^verbatim>\<open>_buf.resize(n)\<close>: a longer vector is filled up with value-initialised elements
  (\<^verbatim>\<open>T{}\<close>, the zero of an arithmetic \<^verbatim>\<open>T\<close>), a shorter one is cut.
\<close>

definition resize :: "'a::zero list \<Rightarrow> nat \<Rightarrow> 'a list" where
  "resize xs n = take n xs @ replicate (n - length xs) 0"

text \<open>
  \<^verbatim>\<open>std::ranges::copy(first, last, result)\<close> inside one vector is the loop
  \<^verbatim>\<open>for (; first != last; ++first, ++result) *result = *first;\<close>
  and \<^verbatim>\<open>std::ranges::copy_backward(first, last, d_last)\<close> is
  \<^verbatim>\<open>while (first != last) *--d_last = *--last;\<close>.
  Both are modelled element by element, so that an overlap of source and destination
  behaves as it does in the loop.
\<close>

fun copy_loop :: "'a list \<Rightarrow> nat \<Rightarrow> nat \<Rightarrow> nat \<Rightarrow> 'a list" where
  "copy_loop xs fst_i result 0 = xs"
| "copy_loop xs fst_i result (Suc k) =
     copy_loop (xs[result := xs ! fst_i]) (Suc fst_i) (Suc result) k"

fun copy_backward_loop :: "'a list \<Rightarrow> nat \<Rightarrow> nat \<Rightarrow> nat \<Rightarrow> 'a list" where
  "copy_backward_loop xs lst_i d_last 0 = xs"
| "copy_backward_loop xs lst_i d_last (Suc k) =
     copy_backward_loop (xs[d_last - 1 := xs ! (lst_i - 1)]) (lst_i - 1) (d_last - 1) k"

definition ranges_copy :: "'a list \<Rightarrow> int \<Rightarrow> int \<Rightarrow> int \<Rightarrow> 'a list option" where
  "ranges_copy xs fst_i lst_i result =
     (if 0 \<le> fst_i \<and> fst_i \<le> lst_i \<and> lst_i \<le> int (length xs)
         \<and> 0 \<le> result \<and> result + (lst_i - fst_i) \<le> int (length xs)
      then Some (copy_loop xs (nat fst_i) (nat result) (nat (lst_i - fst_i)))
      else None)"

definition ranges_copy_backward :: "'a list \<Rightarrow> int \<Rightarrow> int \<Rightarrow> int \<Rightarrow> 'a list option" where
  "ranges_copy_backward xs fst_i lst_i d_last =
     (if 0 \<le> fst_i \<and> fst_i \<le> lst_i \<and> lst_i \<le> int (length xs)
         \<and> d_last \<le> int (length xs) \<and> 0 \<le> d_last - (lst_i - fst_i)
      then Some (copy_backward_loop xs (nat lst_i) (nat d_last) (nat (lst_i - fst_i)))
      else None)"

text \<open>
  \<^verbatim>\<open>std::ranges::copy(data, _buf.begin() + gb)\<close> writes the caller's sequence \<open>data\<close>
  (which is not part of the vector) over the positions \<open>gb, gb + 1, ...\<close>.
\<close>

definition copy_data :: "'a list \<Rightarrow> 'a list \<Rightarrow> int \<Rightarrow> 'a list option" where
  "copy_data xs data result =
     (if 0 \<le> result \<and> result + int (length data) \<le> int (length xs)
      then Some (take (nat result) xs @ data @ drop (nat result + length data) xs)
      else None)"

text \<open>
  \<^verbatim>\<open>_gap.advance(n)\<close> of \<^verbatim>\<open>std::ranges::subrange\<close>: a negative \<open>n\<close> moves the begin of the
  subrange back by \<open>- n\<close>; a non-negative \<open>n\<close> moves it forward, but not past the end.
\<close>

definition gap_advance :: "'a gap_buffer \<Rightarrow> int \<Rightarrow> 'a gap_buffer option" where
  "gap_advance s n =
     (if n < 0
      then (if 0 \<le> gap_begin s + n then Some (s\<lparr>gap_begin := gap_begin s + n\<rparr>) else None)
      else (if gap_begin s \<le> gap_end s
            then Some (s\<lparr>gap_begin := min (gap_begin s + n) (gap_end s)\<rparr>) else None))"

subsection \<open>Growth and cursor relocation (private members)\<close>

definition enlarge_by_at_least :: "'a::zero gap_buffer \<Rightarrow> int \<Rightarrow> 'a gap_buffer option" where
  "enlarge_by_at_least s i =
     (if i \<le> 0 then Some s
      else
        let old_buf_size = buf_size s;
            new_buf_size = 2 * max i old_buf_size;
            (gb, ge) = gap_id s;
            b1 = resize (buf s) (nat new_buf_size)
        in do {
          (gb', ge') \<leftarrow> gap_t b1 gb (int (length b1) - (old_buf_size - ge));
          b2 \<leftarrow> ranges_copy_backward b1 ge old_buf_size (int (length b1));
          Some \<lparr>buf = b2, gap_begin = gb', gap_end = ge'\<rparr>
        })"

definition move_cursor_right :: "'a::zero gap_buffer \<Rightarrow> int \<Rightarrow> 'a gap_buffer option" where
  "move_cursor_right s count =
     (let (gb, ge) = gap_id s in
      do {
        s1 \<leftarrow> enlarge_by_at_least s (ge + count - buf_size s);
        (ngb, nge) \<leftarrow> gap_t (buf s1) (gb + count) (ge + count);
        b \<leftarrow> ranges_copy (buf s1) (gap_end s1) nge gb;
        Some \<lparr>buf = b, gap_begin = ngb, gap_end = nge\<rparr>
      })"

definition move_cursor_left :: "'a::zero gap_buffer \<Rightarrow> int \<Rightarrow> 'a gap_buffer option" where
  "move_cursor_left s count =
     (let (gb, ge) = gap_id s in
      do {
        s1 \<leftarrow> enlarge_by_at_least s (count - gb);
        (ngb, nge) \<leftarrow> gap_t (buf s1) (gb - count) (ge - count);
        b \<leftarrow> ranges_copy_backward (buf s1) ngb (gap_begin s1) ge;
        Some \<lparr>buf = b, gap_begin = ngb, gap_end = nge\<rparr>
      })"

definition move_cursor_to :: "'a::zero gap_buffer \<Rightarrow> int \<Rightarrow> 'a gap_buffer option" where
  "move_cursor_to s index =
     (let (gb, ge) = gap_id s in
      if index = gb then Some s
      else if index > gb then move_cursor_right s (index - gb)
      else move_cursor_left s (gb - index))"

subsection \<open>Public members\<close>

text \<open>
  \<^verbatim>\<open>view()\<close> concatenates \<^verbatim>\<open>[_buf.begin(), _buf.begin() + gb)\<close> and
  \<^verbatim>\<open>[_buf.begin() + ge, _buf.end())\<close>: the logical content.
\<close>

definition view :: "'a gap_buffer \<Rightarrow> 'a list" where
  "view s = (let (gb, ge) = gap_id s in take (nat gb) (buf s) @ drop (nat ge) (buf s))"

definition size_gb :: "'a gap_buffer \<Rightarrow> int" where
  "size_gb s = buf_size s - gap_size s"

definition empty_gb :: "'a gap_buffer \<Rightarrow> bool" where
  "empty_gb s = (size_gb s = 0)"

text \<open>Dereferencing the iterator at offset \<open>i\<close> of the vector.\<close>

definition deref :: "'a list \<Rightarrow> int \<Rightarrow> 'a option" where
  "deref xs i = (if 0 \<le> i \<and> i < int (length xs) then Some (xs ! nat i) else None)"

definition back_gb :: "'a gap_buffer \<Rightarrow> 'a option" where
  "back_gb s =
     (if gap_begin s = gap_end s \<or> gap_end s \<noteq> buf_size s
      then deref (buf s) (buf_size s - 1)
      else deref (buf s) (gap_begin s - 1))"

definition front :: "'a gap_buffer \<Rightarrow> 'a option" where
  "front s =
     (if gap_begin s = gap_end s \<or> gap_begin s \<noteq> 0
      then deref (buf s) 0
      else deref (buf s) (gap_end s + 1))"

text \<open>\<^verbatim>\<open>front()\<close> of the revision with the doc comments: its last line is \<^verbatim>\<open>return *(_gap.end());\<close>\<close>

definition front_rev2 :: "'a gap_buffer \<Rightarrow> 'a option" where
  "front_rev2 s =
     (if gap_begin s = gap_end s \<or> gap_begin s \<noteq> 0
      then deref (buf s) 0
      else deref (buf s) (gap_end s))"

text \<open>
  \<^verbatim>\<open>insert(index, data)\<close>. The \<^verbatim>\<open>assert\<close> on the index is the first branch.
\<close>

definition insert_gb :: "'a::zero gap_buffer \<Rightarrow> int \<Rightarrow> 'a list \<Rightarrow> 'a gap_buffer option" where
  "insert_gb s index data =
     (if \<not> (0 \<le> index \<and> index \<le> size_gb s) then None
      else do {
        s1 \<leftarrow> enlarge_by_at_least s (int (length data));
        s2 \<leftarrow> move_cursor_to s1 index;
        let (gb, ge) = gap_id s2;
        b \<leftarrow> copy_data (buf s2) data gb;
        (gb', ge') \<leftarrow> gap_t b (gb + int (length data)) ge;
        Some \<lparr>buf = b, gap_begin = gb', gap_end = ge'\<rparr>
      })"

text \<open>\<^verbatim>\<open>insert(index, t)\<close> inserts \<^verbatim>\<open>std::views::single(t)\<close>.\<close>

definition insert_elem :: "'a::zero gap_buffer \<Rightarrow> int \<Rightarrow> 'a \<Rightarrow> 'a gap_buffer option" where
  "insert_elem s index t = insert_gb s index [t]"

text \<open>The cursor forms \<^verbatim>\<open>insert(data)\<close> and \<^verbatim>\<open>insert(t)\<close> insert at \<^verbatim>\<open>gap_id().first\<close>.\<close>

definition insert_cursor :: "'a::zero gap_buffer \<Rightarrow> 'a list \<Rightarrow> 'a gap_buffer option" where
  "insert_cursor s data = insert_gb s (fst (gap_id s)) data"

definition insert_cursor_elem :: "'a::zero gap_buffer \<Rightarrow> 'a \<Rightarrow> 'a gap_buffer option" where
  "insert_cursor_elem s t = insert_elem s (fst (gap_id s)) t"

definition push_front :: "'a::zero gap_buffer \<Rightarrow> 'a list \<Rightarrow> 'a gap_buffer option" where
  "push_front s data = insert_gb s 0 data"

definition push_front_elem :: "'a::zero gap_buffer \<Rightarrow> 'a \<Rightarrow> 'a gap_buffer option" where
  "push_front_elem s t = insert_elem s 0 t"

definition push_back :: "'a::zero gap_buffer \<Rightarrow> 'a list \<Rightarrow> 'a gap_buffer option" where
  "push_back s data = insert_gb s (size_gb s) data"

definition push_back_elem :: "'a::zero gap_buffer \<Rightarrow> 'a \<Rightarrow> 'a gap_buffer option" where
  "push_back_elem s t = insert_elem s (size_gb s) t"

text \<open>
  \<^verbatim>\<open>remove(index, count)\<close>: the parameter \<open>count\<close> is overwritten by its clamped value in
  either branch, the cursor is moved, and the gap is advanced by minus the clamped value.
  The source negates twice: \<^verbatim>\<open>-count\<close> inside \<^verbatim>\<open>std::min\<close> of the second branch, and
  \<^verbatim>\<open>-count\<close> in the argument of \<^verbatim>\<open>_gap.advance\<close>.
\<close>

definition remove :: "'a::zero gap_buffer \<Rightarrow> int \<Rightarrow> int \<Rightarrow> 'a gap_buffer option" where
  "remove s index count =
     (if count \<ge> 0
      then (let count' = min count (size_gb s - index) in
            do {
              s1 \<leftarrow> move_cursor_to s (index + count');
              n \<leftarrow> int64_neg count';
              gap_advance s1 n
            })
      else do {
             m \<leftarrow> int64_neg count;
             let count' = min m index;
             s1 \<leftarrow> move_cursor_to s index;
             n \<leftarrow> int64_neg count';
             gap_advance s1 n
           })"

text \<open>
  \<^verbatim>\<open>remove\<close> of the revision with the doc comments: the attribute \<^verbatim>\<open>assume(index >= 0)\<close>
  (undefined behaviour when it is false), the same
  branch for a non-negative count, and for a negative count the clamp
  \<^verbatim>\<open>std::min(-count, index + 1)\<close> and the cursor moved to \<^verbatim>\<open>index + 1\<close>.
\<close>

definition remove_rev2 :: "'a::zero gap_buffer \<Rightarrow> int \<Rightarrow> int \<Rightarrow> 'a gap_buffer option" where
  "remove_rev2 s index count =
     (if \<not> index \<ge> 0 then None
      else if count \<ge> 0
      then (let count' = min count (size_gb s - index) in
            do {
              s1 \<leftarrow> move_cursor_to s (index + count');
              n \<leftarrow> int64_neg count';
              gap_advance s1 n
            })
      else do {
             m \<leftarrow> int64_neg count;
             let count' = min m (index + 1);
             s1 \<leftarrow> move_cursor_to s (index + 1);
             n \<leftarrow> int64_neg count';
             gap_advance s1 n
           })"

definition remove_prefix :: "'a::zero gap_buffer \<Rightarrow> int \<Rightarrow> 'a gap_buffer option" where
  "remove_prefix s count = remove s 0 count"

text \<open>\<^verbatim>\<open>remove_suffix(count)\<close> is \<^verbatim>\<open>remove(size(), -count)\<close>: one more negation of the argument.\<close>

definition remove_suffix :: "'a::zero gap_buffer \<Rightarrow> int \<Rightarrow> 'a gap_buffer option" where
  "remove_suffix s count = do { n \<leftarrow> int64_neg count; remove s (size_gb s) n }"

text \<open>\<^verbatim>\<open>clear()\<close>: \<^verbatim>\<open>_buf.clear(); _gap = gap_t{_buf.begin(), _buf.end()};\<close>\<close>

definition clear :: "'a gap_buffer \<Rightarrow> 'a gap_buffer" where
  "clear s = \<lparr>buf = [], gap_begin = 0, gap_end = int (length ([] :: 'a list))\<rparr>"

subsection \<open>The invariant of the data model\<close>

definition wf_buffer :: "'a gap_buffer \<Rightarrow> bool" where
  "wf_buffer s \<longleftrightarrow> 0 \<le> gap_begin s \<and> gap_begin s \<le> gap_end s \<and> gap_end s \<le> buf_size s"

text \<open>
  The states a caller can produce: the constructor, followed by calls of the public
  members that return (a call that runs into undefined behaviour or a failing
  \<^verbatim>\<open>assert\<close> has no successor state).
\<close>

inductive reachable :: "'a::zero gap_buffer \<Rightarrow> bool" where
  construct: "reachable gap_buffer_init"
| insert: "reachable s \<Longrightarrow> insert_gb s index data = Some s' \<Longrightarrow> reachable s'"
| insert_elem: "reachable s \<Longrightarrow> insert_elem s index t = Some s' \<Longrightarrow> reachable s'"
| insert_cursor: "reachable s \<Longrightarrow> insert_cursor s data = Some s' \<Longrightarrow> reachable s'"
| insert_cursor_elem: "reachable s \<Longrightarrow> insert_cursor_elem s t = Some s' \<Longrightarrow> reachable s'"
| push_front: "reachable s \<Longrightarrow> push_front s data = Some s' \<Longrightarrow> reachable s'"
| push_front_elem: "reachable s \<Longrightarrow> push_front_elem s t = Some s' \<Longrightarrow> reachable s'"
| push_back: "reachable s \<Longrightarrow> push_back s data = Some s' \<Longrightarrow> reachable s'"
| push_back_elem: "reachable s \<Longrightarrow> push_back_elem s t = Some s' \<Longrightarrow> reachable s'"
| remove: "reachable s \<Longrightarrow> remove s index count = Some s' \<Longrightarrow> reachable s'"
| remove_prefix: "reachable s \<Longrightarrow> remove_prefix s count = Some s' \<Longrightarrow> reachable s'"
| remove_suffix: "reachable s \<Longrightarrow> remove_suffix s count = Some s' \<Longrightarrow> reachable s'"
| clear: "reachable s \<Longrightarrow> reachable (clear s)"

subsection \<open>The scripted checks of \<^verbatim>\<open>main.cpp\<close>\<close>

text \<open>
  \<^verbatim>\<open>test()\<close> of \<^verbatim>\<open>main.cpp\<close> runs a \<^verbatim>\<open>gap_buffer<char>\<close> through a fixed sequence of calls
  and records seventeen checks. Characters are modelled by their codes.
\<close>

definition str :: "string \<Rightarrow> nat list" where "str cs = map of_char cs"

definition main_test :: "bool list option" where
  "main_test = do {
     let gb = (gap_buffer_init :: nat gap_buffer);
     let t1 = (empty_gb gb \<and> size_gb gb = 0);
     gb \<leftarrow> push_back gb (str ''gap buffer'');
     let t2 = (view gb = str ''gap buffer'');
     gb \<leftarrow> remove gb 0 100;
     let t3 = empty_gb gb;
     gb \<leftarrow> push_back gb (str ''gap buffer'');
     let gb = clear gb;
     let t4 = empty_gb gb;
     gb \<leftarrow> push_front gb (str ''gap buffer'');
     let t5 = (view gb = str ''gap buffer'');
     gb \<leftarrow> insert_cursor gb (str '' abc'');
     let t6 = (view gb = str ''gap buffer abc'');
     gb \<leftarrow> push_back gb (str '' efg'');
     let t7 = (view gb = str ''gap buffer abc efg'');
     gb \<leftarrow> push_front gb (str ''--- '');
     let t8 = (view gb = str ''--- gap buffer abc efg'');
     gb \<leftarrow> insert_cursor gb (str ''***'');
     let t9 = (view gb = str ''--- ***gap buffer abc efg'');
     gb \<leftarrow> insert_cursor_elem gb (of_char CHR ''#'');
     let t10 = (view gb = str ''--- ***#gap buffer abc efg'');
     gb \<leftarrow> remove_prefix gb 0;
     let t11 = (view gb = str ''--- ***#gap buffer abc efg'');
     gb \<leftarrow> remove_prefix gb 4;
     let t12 = (view gb = str ''***#gap buffer abc efg'');
     gb \<leftarrow> remove_suffix gb 4;
     let t13 = (view gb = str ''***#gap buffer abc'');
     gb \<leftarrow> remove gb 4 4;
     let t14 = (view gb = str ''***#buffer abc'');
     gb \<leftarrow> insert_cursor gb (str ''&&&'');
     let t15 = (view gb = str ''***#&&&buffer abc'');
     let t16 = (back_gb gb = Some (of_char CHR ''c''));
     let t17 = (front gb = Some (of_char CHR ''*''));
     Some [t1, t2, t3, t4, t5, t6, t7, t8, t9, t10, t11, t12, t13, t14, t15, t16, t17]
   }"

section \<open>Properties\<close>

subsection \<open>The copy loops, growth and cursor relocation\<close>

lemma copy_loop_length [simp]: "length (copy_loop xs f r k) = length xs"
  by (induction k arbitrary: xs f r) auto

lemma copy_loop_nth:
  "r \<le> f \<Longrightarrow> f + k \<le> length xs \<Longrightarrow> i < length xs \<Longrightarrow>
   copy_loop xs f r k ! i = (if r \<le> i \<and> i < r + k then xs ! (f + (i - r)) else xs ! i)"
proof (induction k arbitrary: xs f r)
  case 0
  then show ?case by auto
next
  case (Suc k)
  then show ?case by (auto simp: nth_list_update intro!: arg_cong[of _ _ "(!) xs"])
qed

lemma copy_loop_eq:
  assumes "r \<le> f" "f + k \<le> length xs"
  shows "copy_loop xs f r k = take r xs @ take k (drop f xs) @ drop (r + k) xs"
proof (rule nth_equalityI)
  show "length (copy_loop xs f r k) = length (take r xs @ take k (drop f xs) @ drop (r + k) xs)"
    using assms by simp
next
  fix i assume "i < length (copy_loop xs f r k)"
  then have i: "i < length xs" by simp
  show "copy_loop xs f r k ! i = (take r xs @ take k (drop f xs) @ drop (r + k) xs) ! i"
    using assms i by (auto simp: copy_loop_nth nth_append)
qed

lemma copy_backward_loop_length [simp]: "length (copy_backward_loop xs l d k) = length xs"
  by (induction k arbitrary: xs l d) auto

lemma copy_backward_loop_nth:
  "l \<le> d \<Longrightarrow> d \<le> length xs \<Longrightarrow> k \<le> l \<Longrightarrow> i < length xs \<Longrightarrow>
   copy_backward_loop xs l d k ! i = (if d - k \<le> i \<and> i < d then xs ! (l - (d - i)) else xs ! i)"
proof (induction k arbitrary: xs l d)
  case 0
  then show ?case by auto
next
  case (Suc k)
  then show ?case by (auto simp: nth_list_update intro!: arg_cong[of _ _ "(!) xs"])
qed

lemma copy_backward_loop_eq:
  assumes "l \<le> d" "d \<le> length xs" "k \<le> l"
  shows "copy_backward_loop xs l d k = take (d - k) xs @ take k (drop (l - k) xs) @ drop d xs"
proof (rule nth_equalityI)
  show "length (copy_backward_loop xs l d k) = length (take (d - k) xs @ take k (drop (l - k) xs) @ drop d xs)"
    using assms by simp
next
  fix i assume "i < length (copy_backward_loop xs l d k)"
  then have i: "i < length xs" by simp
  show "copy_backward_loop xs l d k ! i = (take (d - k) xs @ take k (drop (l - k) xs) @ drop d xs) ! i"
    using assms i by (auto simp: copy_backward_loop_nth nth_append)
qed

lemma ranges_copy_Some:
  assumes "0 \<le> r" "r \<le> f" "f \<le> l" "l \<le> int (length xs)"
  shows "ranges_copy xs f l r =
    Some (take (nat r) xs @ take (nat (l - f)) (drop (nat f) xs) @ drop (nat (r + (l - f))) xs)"
proof -
  have "copy_loop xs (nat f) (nat r) (nat (l - f)) =
    take (nat r) xs @ take (nat (l - f)) (drop (nat f) xs) @ drop (nat r + nat (l - f)) xs"
    using assms by (intro copy_loop_eq) auto
  moreover have "nat r + nat (l - f) = nat (r + (l - f))" using assms by linarith
  ultimately show ?thesis using assms by (simp add: ranges_copy_def)
qed

lemma ranges_copy_backward_Some:
  assumes "0 \<le> f" "f \<le> l" "l \<le> d" "d \<le> int (length xs)"
  shows "ranges_copy_backward xs f l d =
    Some (take (nat (d - (l - f))) xs @ take (nat (l - f)) (drop (nat f) xs) @ drop (nat d) xs)"
proof -
  have "copy_backward_loop xs (nat l) (nat d) (nat (l - f)) =
    take (nat d - nat (l - f)) xs @ take (nat (l - f)) (drop (nat l - nat (l - f)) xs) @ drop (nat d) xs"
    using assms by (intro copy_backward_loop_eq) auto
  moreover have "nat d - nat (l - f) = nat (d - (l - f))" "nat l - nat (l - f) = nat f"
    using assms by linarith+
  ultimately show ?thesis using assms by (simp add: ranges_copy_backward_def)
qed

lemma enlarge_pos:
  assumes "wf_buffer s" "0 < i"
  shows "enlarge_by_at_least s i =
    Some \<lparr>buf = buf s @ replicate (nat (2 * max i (buf_size s) - 2 * buf_size s + gap_end s)) 0
                  @ drop (nat (gap_end s)) (buf s),
          gap_begin = gap_begin s,
          gap_end = 2 * max i (buf_size s) - (buf_size s - gap_end s)\<rparr>"
proof -
  define n where "n = length (buf s)"
  define m where "m = nat (2 * max i (int n))"
  define b1 where "b1 = resize (buf s) m"
  have wf: "0 \<le> gap_begin s" "gap_begin s \<le> gap_end s" "gap_end s \<le> int n"
    using assms by (auto simp: wf_buffer_def buf_size_def n_def)
  have m: "2 * n \<le> m" "int m = 2 * max i (int n)" "0 < m" using assms by (auto simp: m_def)
  have b1: "b1 = buf s @ replicate (m - n) 0" "length b1 = m"
    using m by (auto simp: b1_def resize_def n_def)
  have g: "gap_t b1 (gap_begin s) (int (length b1) - (int n - gap_end s))
         = Some (gap_begin s, int m - (int n - gap_end s))"
    using wf m b1 by (auto simp: gap_t_def)
  have c: "ranges_copy_backward b1 (gap_end s) (int n) (int (length b1)) =
     Some (take (nat (int m - (int n - gap_end s))) b1 @ take (nat (int n - gap_end s)) (drop (nat (gap_end s)) b1) @ drop (nat (int m)) b1)"
    using wf m b1 by (subst ranges_copy_backward_Some) auto
  have t1: "take (nat (int m - (int n - gap_end s))) b1 = buf s @ replicate (nat (int m - 2 * int n + gap_end s)) 0"
  proof -
    define k where "k = nat (int m - 2 * int n + gap_end s)"
    have "nat (int m - (int n - gap_end s)) = n + k" "k \<le> m - n"
      using wf m(1) by (auto simp: k_def)
    then show ?thesis
      by (simp add: b1 n_def[symmetric] k_def[symmetric] min_absorb2)
  qed
  have t2: "take (nat (int n - gap_end s)) (drop (nat (gap_end s)) b1) = drop (nat (gap_end s)) (buf s)"
    using wf m by (auto simp: b1 n_def)
  have t3: "drop (nat (int m)) b1 = []" using b1 by simp
  show ?thesis
    using assms(2) g c b1(2)
    by (simp add: enlarge_by_at_least_def gap_id_def buf_size_def Let_def
        n_def[symmetric] m_def[symmetric] b1_def[symmetric] t1 t2 t3 m(2)[symmetric])
qed

lemma shift_right_lists:
  fixes xs :: "'a list"
  assumes "g \<le> e" "e + c \<le> length xs"
  defines "ys \<equiv> take g xs @ take c (drop e xs) @ drop (g + c) xs"
  shows "take (g + c) ys @ drop (e + c) ys = take g xs @ drop e xs"
proof -
  have "take (g + c) ys = take g xs @ take c (drop e xs)"
    using assms by (simp add: ys_def)
  moreover have "drop (e + c) ys = drop (e + c) xs"
    using assms by (simp add: ys_def)
  moreover have "take c (drop e xs) @ drop (e + c) xs = drop e xs"
  proof -
    have "drop (e + c) xs = drop c (drop e xs)" by (simp add: add.commute)
    then show ?thesis by (simp only: append_take_drop_id)
  qed
  ultimately show ?thesis by simp
qed

lemma shift_left_lists:
  fixes xs :: "'a list"
  assumes "c \<le> g" "g \<le> e" "e \<le> length xs"
  defines "ys \<equiv> take (e - c) xs @ take c (drop (g - c) xs) @ drop e xs"
  shows "take (g - c) ys @ drop (e - c) ys = take g xs @ drop e xs"
proof -
  have "take (g - c) ys = take (g - c) xs"
    using assms by (simp add: ys_def min_absorb2)
  moreover have "drop (e - c) ys = take c (drop (g - c) xs) @ drop e xs"
    using assms by (simp add: ys_def)
  moreover have "take (g - c) xs @ take c (drop (g - c) xs) = take g xs"
  proof -
    have "take g xs = take ((g - c) + c) xs" using assms(1) by simp
    then show ?thesis by (simp only: take_add)
  qed
  ultimately show ?thesis by simp
qed

lemma enlarge_nonpos [simp]: "i \<le> 0 \<Longrightarrow> enlarge_by_at_least s i = Some s"
  by (simp add: enlarge_by_at_least_def)

lemma move_cursor_right_Some:
  assumes "wf_buffer s" "0 \<le> count" "gap_end s + count \<le> buf_size s"
  shows "move_cursor_right s count =
    Some \<lparr>buf = take (nat (gap_begin s)) (buf s) @ take (nat count) (drop (nat (gap_end s)) (buf s))
                  @ drop (nat (gap_begin s + count)) (buf s),
          gap_begin = gap_begin s + count, gap_end = gap_end s + count\<rparr>"
proof -
  have wf: "0 \<le> gap_begin s" "gap_begin s \<le> gap_end s" "gap_end s \<le> int (length (buf s))"
    and c: "gap_end s + count \<le> int (length (buf s))"
    using assms by (auto simp: wf_buffer_def buf_size_def)
  have g: "gap_t (buf s) (gap_begin s + count) (gap_end s + count)
      = Some (gap_begin s + count, gap_end s + count)"
    using wf c assms(2) by (simp add: gap_t_def)
  have r: "ranges_copy (buf s) (gap_end s) (gap_end s + count) (gap_begin s) =
    Some (take (nat (gap_begin s)) (buf s) @ take (nat count) (drop (nat (gap_end s)) (buf s))
                  @ drop (nat (gap_begin s + count)) (buf s))"
    using wf c assms(2) by (subst ranges_copy_Some) auto
  show ?thesis
    using assms(3) g r by (simp add: move_cursor_right_def gap_id_def)
qed

lemma move_cursor_left_Some:
  assumes "wf_buffer s" "0 \<le> count" "count \<le> gap_begin s"
  shows "move_cursor_left s count =
    Some \<lparr>buf = take (nat (gap_end s - count)) (buf s)
                  @ take (nat count) (drop (nat (gap_begin s - count)) (buf s))
                  @ drop (nat (gap_end s)) (buf s),
          gap_begin = gap_begin s - count, gap_end = gap_end s - count\<rparr>"
proof -
  have wf: "0 \<le> gap_begin s" "gap_begin s \<le> gap_end s" "gap_end s \<le> int (length (buf s))"
    using assms by (auto simp: wf_buffer_def buf_size_def)
  have g: "gap_t (buf s) (gap_begin s - count) (gap_end s - count)
      = Some (gap_begin s - count, gap_end s - count)"
    using wf assms(2,3) by (simp add: gap_t_def)
  have r: "ranges_copy_backward (buf s) (gap_begin s - count) (gap_begin s) (gap_end s) =
    Some (take (nat (gap_end s - count)) (buf s)
                  @ take (nat count) (drop (nat (gap_begin s - count)) (buf s))
                  @ drop (nat (gap_end s)) (buf s))"
    using wf assms(2,3) by (subst ranges_copy_backward_Some) auto
  show ?thesis
    using assms(3) g r by (simp add: move_cursor_left_def gap_id_def)
qed

lemma move_cursor_to_props:
  assumes "wf_buffer s" "0 \<le> index" "index \<le> size_gb s"
  shows "\<exists>s'. move_cursor_to s index = Some s' \<and> wf_buffer s' \<and> view s' = view s
             \<and> gap_begin s' = index \<and> gap_end s' = index + gap_size s
             \<and> length (buf s') = length (buf s)"
proof -
  obtain g e where ge: "gap_begin s = int g" "gap_end s = int e"
    using assms(1) by (metis wf_buffer_def nonneg_int_cases order_trans)
  have wf: "g \<le> e" "e \<le> length (buf s)"
    using assms(1) by (auto simp: wf_buffer_def ge buf_size_def)
  obtain i where i: "index = int i" using assms(2) nonneg_int_cases by blast
  have ib: "i + (e - g) \<le> length (buf s)"
    using assms(3) wf by (auto simp: size_gb_def gap_size_def buf_size_def ge i)
  consider "i = g" | "g < i" | "i < g" by linarith
  then show ?thesis
  proof cases
    case 1
    then show ?thesis
      using assms(1) by (simp add: move_cursor_to_def gap_id_def ge i gap_size_def)
  next
    case 2
    define c where "c = i - g"
    have c: "index - gap_begin s = int c" "i = g + c" "e + c \<le> length (buf s)"
      using 2 ib wf by (auto simp: c_def ge i)
    have m: "move_cursor_to s index = move_cursor_right s (int c)"
      using 2 by (simp add: move_cursor_to_def gap_id_def ge i c_def)
    define ys where "ys = take g (buf s) @ take c (drop e (buf s)) @ drop (g + c) (buf s)"
    define s' where "s' = \<lparr>buf = ys, gap_begin = int (g + c), gap_end = int (e + c)\<rparr>"
    have r: "move_cursor_right s (int c) = Some s'"
      using c(3) unfolding s'_def ys_def
      by (subst move_cursor_right_Some[OF assms(1)])
         (auto simp: ge buf_size_def nat_add_distrib)
    have len: "length ys = length (buf s)" using wf c(3) by (simp add: ys_def)
    have "view s' = take (g + c) ys @ drop (e + c) ys"
      by (simp add: view_def gap_id_def s'_def del: of_nat_add)
    also have "\<dots> = take g (buf s) @ drop e (buf s)"
      unfolding ys_def using wf(1) c(3) by (rule shift_right_lists)
    also have "\<dots> = view s" by (simp add: view_def gap_id_def ge)
    finally have v: "view s' = view s" .
    have "wf_buffer s'" using wf c(3) by (simp add: wf_buffer_def s'_def buf_size_def len)
    moreover have "gap_begin s' = index" "gap_end s' = index + gap_size s"
      using wf by (auto simp: s'_def i c(2) gap_size_def ge)
    moreover have "length (buf s') = length (buf s)" by (simp add: s'_def len)
    ultimately show ?thesis using m r v by simp
  next
    case 3
    define c where "c = g - i"
    have c: "gap_begin s - index = int c" "i = g - c" "c \<le> g"
      using 3 by (auto simp: c_def ge i)
    have m: "move_cursor_to s index = move_cursor_left s (int c)"
      using 3 by (simp add: move_cursor_to_def gap_id_def ge i c_def)
    define ys where "ys = take (e - c) (buf s) @ take c (drop (g - c) (buf s)) @ drop e (buf s)"
    define s' where "s' = \<lparr>buf = ys, gap_begin = int (g - c), gap_end = int (e - c)\<rparr>"
    have r: "move_cursor_left s (int c) = Some s'"
      using c(3) wf unfolding s'_def ys_def
      by (subst move_cursor_left_Some[OF assms(1)])
         (auto simp: ge nat_diff_distrib')
    have len: "length ys = length (buf s)" using wf c(3) by (simp add: ys_def)
    have "view s' = take (g - c) ys @ drop (e - c) ys"
      by (simp add: view_def gap_id_def s'_def del: of_nat_diff)
    also have "\<dots> = take g (buf s) @ drop e (buf s)"
      unfolding ys_def using c(3) wf by (rule shift_left_lists)
    also have "\<dots> = view s" by (simp add: view_def gap_id_def ge)
    finally have v: "view s' = view s" .
    have "wf_buffer s'" using wf c(3) by (simp add: wf_buffer_def s'_def buf_size_def len)
    moreover have "gap_begin s' = index" "gap_end s' = index + gap_size s"
      using wf c(3) by (auto simp: s'_def i c(2) gap_size_def ge)
    moreover have "length (buf s') = length (buf s)" by (simp add: s'_def len)
    ultimately show ?thesis using m r v by simp
  qed
qed

subsection \<open>What the operations do on a well-formed buffer\<close>

lemma size_gb_view: "wf_buffer s \<Longrightarrow> size_gb s = int (length (view s))"
  by (auto simp: wf_buffer_def size_gb_def view_def gap_id_def buf_size_def gap_size_def)

lemma enlarge_props:
  assumes "wf_buffer s"
  shows "\<exists>s'. enlarge_by_at_least s i = Some s' \<and> wf_buffer s' \<and> view s' = view s
            \<and> gap_begin s' = gap_begin s \<and> size_gb s' = size_gb s \<and> i \<le> gap_size s'
            \<and> buf_size s' = (if i \<le> 0 then buf_size s else 2 * max i (buf_size s))
            \<and> gap_end s' = buf_size s' - (buf_size s - gap_end s)"
proof (cases "i \<le> 0")
  case True
  then show ?thesis using assms by (auto simp: wf_buffer_def gap_size_def)
next
  case False
  define k where "k = nat (2 * max i (buf_size s) - 2 * buf_size s + gap_end s)"
  define s' where "s' = \<lparr>buf = buf s @ replicate k 0 @ drop (nat (gap_end s)) (buf s),
     gap_begin = gap_begin s, gap_end = 2 * max i (buf_size s) - (buf_size s - gap_end s)\<rparr>"
  have wf: "0 \<le> gap_begin s" "gap_begin s \<le> gap_end s" "gap_end s \<le> int (length (buf s))"
    using assms by (auto simp: wf_buffer_def buf_size_def)
  have e: "enlarge_by_at_least s i = Some s'"
    using False assms by (simp add: enlarge_pos s'_def k_def)
  have k: "int k = 2 * max i (buf_size s) - 2 * buf_size s + gap_end s"
    using wf by (auto simp: k_def buf_size_def)
  have len: "buf_size s' = 2 * max i (buf_size s)"
    using wf by (simp add: s'_def buf_size_def k[unfolded buf_size_def])
  have ge: "nat (gap_end s') = length (buf s) + k"
    using wf by (simp add: s'_def k_def buf_size_def)
  have fields: "gap_begin s' = gap_begin s"
      "buf s' = buf s @ replicate k 0 @ drop (nat (gap_end s)) (buf s)"
    by (simp_all add: s'_def)
  have "view s' = take (nat (gap_begin s)) (buf s') @ drop (length (buf s) + k) (buf s')"
    by (simp add: view_def gap_id_def ge fields(1))
  also have "\<dots> = take (nat (gap_begin s)) (buf s) @ drop (nat (gap_end s)) (buf s)"
    using wf by (simp add: fields(2))
  finally have "view s' = take (nat (gap_begin s)) (buf s) @ drop (nat (gap_end s)) (buf s)" .
  then have v: "view s' = view s" by (simp add: view_def gap_id_def)
  have w: "wf_buffer s'" using wf len by (auto simp: wf_buffer_def s'_def buf_size_def)
  have "size_gb s' = size_gb s" using w assms v by (simp add: size_gb_view)
  moreover have "i \<le> gap_size s'" using wf by (auto simp: gap_size_def s'_def buf_size_def)
  moreover have "gap_end s' = buf_size s' - (buf_size s - gap_end s)"
    unfolding len by (simp add: s'_def)
  ultimately show ?thesis using e w v len False by (simp add: s'_def)
qed

lemma view_gap_begin_update:
  assumes "wf_buffer s" "0 \<le> j" "j \<le> gap_begin s"
  shows "view (s\<lparr>gap_begin := j\<rparr>) = take (nat j) (view s) @ drop (nat (gap_begin s)) (view s)"
  using assms by (auto simp: wf_buffer_def view_def gap_id_def buf_size_def min_absorb2)

lemma insert_props:
  assumes "wf_buffer s" "0 \<le> index" "index \<le> size_gb s"
  shows "\<exists>s'. insert_gb s index data = Some s' \<and> wf_buffer s'
            \<and> view s' = take (nat index) (view s) @ data @ drop (nat index) (view s)
            \<and> gap_begin s' = index + int (length data)"
proof -
  define d where "d = length data"
  obtain s1 where s1: "enlarge_by_at_least s (int d) = Some s1" "wf_buffer s1" "view s1 = view s"
      "size_gb s1 = size_gb s" "int d \<le> gap_size s1"
    using enlarge_props[OF assms(1), of "int d"] by blast
  obtain s2 where s2: "move_cursor_to s1 index = Some s2" "wf_buffer s2" "view s2 = view s"
      "gap_begin s2 = index" "gap_end s2 = index + gap_size s1"
    using move_cursor_to_props[OF s1(2) assms(2), unfolded s1(3,4), OF assms(3)] by blast
  obtain i where i: "index = int i" using assms(2) nonneg_int_cases by blast
  obtain e where e: "gap_end s2 = int e"
    using s2(2) by (metis wf_buffer_def nonneg_int_cases order_trans)
  have b: "i + d \<le> e" "e \<le> length (buf s2)"
    using s2(2,4,5) s1(5) by (auto simp: wf_buffer_def i e buf_size_def)
  define ys where "ys = take i (buf s2) @ data @ drop (i + d) (buf s2)"
  define s' where "s' = \<lparr>buf = ys, gap_begin = int (i + d), gap_end = int e\<rparr>"
  have len: "length ys = length (buf s2)" using b by (simp add: ys_def d_def)
  have c: "copy_data (buf s2) data (int i) = Some ys"
    using b by (simp add: copy_data_def ys_def d_def)
  have g: "gap_t ys (int i + int d) (int e) = Some (int (i + d), int e)"
    using b by (simp add: gap_t_def len)
  have r: "insert_gb s index data = Some s'"
    using assms(2,3) s1(1) s2(1) c g
    by (simp add: insert_gb_def gap_id_def s2(4) i e d_def[symmetric] s'_def)
  have "view s' = take (i + d) ys @ drop e ys"
    by (simp add: view_def gap_id_def s'_def del: of_nat_add)
  also have "\<dots> = take i (buf s2) @ data @ drop e (buf s2)"
    using b by (simp add: ys_def d_def)
  finally have v': "view s' = take i (buf s2) @ data @ drop e (buf s2)" .
  have v2: "view s2 = take i (buf s2) @ drop e (buf s2)"
    by (simp add: view_def gap_id_def s2(4) e i)
  have "take i (view s2) = take i (buf s2)" "drop i (view s2) = drop e (buf s2)"
    using b by (simp_all add: v2 min_absorb2)
  then have v: "view s' = take (nat index) (view s) @ data @ drop (nat index) (view s)"
    using v' by (simp add: i s2(3)[symmetric])
  have "wf_buffer s'" using b by (simp add: wf_buffer_def s'_def buf_size_def len)
  moreover have "gap_begin s' = index + int (length data)" by (simp add: s'_def i d_def)
  ultimately show ?thesis using r v by simp
qed

lemma gap_advance_back:
  assumes "wf_buffer s" "0 \<le> k" "k \<le> gap_begin s"
  shows "gap_advance s (- k) = Some (s\<lparr>gap_begin := gap_begin s - k\<rparr>)"
  using assms by (auto simp: gap_advance_def wf_buffer_def)

lemma int64_neg_Some: "- (2 ^ 63) < x \<Longrightarrow> int64_neg x = Some (- x)"
  by (simp add: int64_neg_def)

lemma remove_props:
  assumes "wf_buffer s" "0 \<le> index" "index \<le> size_gb s" "- (2 ^ 63) < count"
  shows "\<exists>s'. remove s index count = Some s' \<and> wf_buffer s' \<and> length (buf s') = length (buf s)
            \<and> gap_begin s' = (if 0 \<le> count then index else index - min (- count) index)
            \<and> view s' =
               (if 0 \<le> count
                then take (nat index) (view s)
                     @ drop (nat (index + min count (size_gb s - index))) (view s)
                else take (nat (index - min (- count) index)) (view s)
                     @ drop (nat index) (view s))"
proof (cases "0 \<le> count")
  case True
  define k where "k = min count (size_gb s - index)"
  have k: "0 \<le> k" "index + k \<le> size_gb s" using True assms by (auto simp: k_def)
  obtain s1 where s1: "move_cursor_to s (index + k) = Some s1" "wf_buffer s1" "view s1 = view s"
      "gap_begin s1 = index + k" "length (buf s1) = length (buf s)"
    using move_cursor_to_props[OF assms(1), of "index + k"] k assms(2) by auto
  define s' where "s' = s1\<lparr>gap_begin := index\<rparr>"
  have a: "gap_advance s1 (- k) = Some s'"
    using gap_advance_back[OF s1(2) k(1)] assms(2) by (simp add: s1(4) s'_def)
  have n: "int64_neg k = Some (- k)" using k(1) by (intro int64_neg_Some) simp
  have r: "remove s index count = Some s'"
    using True s1(1) a n by (simp add: remove_def k_def[symmetric])
  have v: "view s' = take (nat index) (view s) @ drop (nat (index + k)) (view s)"
    using view_gap_begin_update[OF s1(2) assms(2), unfolded s1(4)] k(1)
    by (simp add: s'_def s1(3))
  have "wf_buffer s'" using s1(2,4) assms(2) k(1) by (simp add: wf_buffer_def s'_def buf_size_def)
  then show ?thesis using True r v s1(5) by (simp add: s'_def k_def)
next
  case False
  define k where "k = min (- count) index"
  have k: "0 \<le> k" "k \<le> index" using False assms by (auto simp: k_def)
  obtain s1 where s1: "move_cursor_to s index = Some s1" "wf_buffer s1" "view s1 = view s"
      "gap_begin s1 = index" "length (buf s1) = length (buf s)"
    using move_cursor_to_props[OF assms(1-3)] by auto
  define s' where "s' = s1\<lparr>gap_begin := index - k\<rparr>"
  have a: "gap_advance s1 (- k) = Some s'"
    using gap_advance_back[OF s1(2) k(1)] k(2) by (simp add: s1(4) s'_def)
  have n: "int64_neg count = Some (- count)" "int64_neg k = Some (- k)"
    using assms(4) k(1) by (auto intro!: int64_neg_Some)
  have r: "remove s index count = Some s'"
    using False s1(1) a n by (simp add: remove_def k_def[symmetric])
  have v: "view s' = take (nat (index - k)) (view s) @ drop (nat index) (view s)"
    using view_gap_begin_update[OF s1(2), of "index - k"] k
    by (simp add: s'_def s1(3,4))
  have "wf_buffer s'" using s1(2,4) k by (simp add: wf_buffer_def s'_def buf_size_def)
  then show ?thesis using False r v s1(5) by (simp add: s'_def k_def)
qed

subsection \<open>The invariant is kept by every call that returns\<close>

lemma gap_t_SomeD:
  "gap_t b i j = Some (x, y) \<Longrightarrow> x = i \<and> y = j \<and> 0 \<le> i \<and> i \<le> j \<and> j \<le> int (length b)"
  by (auto simp: gap_t_def split: if_splits)

lemma ranges_copy_length: "ranges_copy xs f l r = Some ys \<Longrightarrow> length ys = length xs"
  by (auto simp: ranges_copy_def split: if_splits)

lemma ranges_copy_backward_length:
  "ranges_copy_backward xs f l d = Some ys \<Longrightarrow> length ys = length xs"
  by (auto simp: ranges_copy_backward_def split: if_splits)

lemma enlarge_wf:
  "wf_buffer s \<Longrightarrow> enlarge_by_at_least s i = Some s' \<Longrightarrow> wf_buffer s'"
  using enlarge_props[of s i] by auto

lemma move_cursor_right_wf: "move_cursor_right s count = Some s' \<Longrightarrow> wf_buffer s'"
  by (auto simp: move_cursor_right_def gap_id_def wf_buffer_def buf_size_def
      dest!: gap_t_SomeD ranges_copy_length split: Option.bind_splits)

lemma move_cursor_left_wf: "move_cursor_left s count = Some s' \<Longrightarrow> wf_buffer s'"
  by (auto simp: move_cursor_left_def gap_id_def wf_buffer_def buf_size_def
      dest!: gap_t_SomeD ranges_copy_backward_length split: Option.bind_splits)

lemma move_cursor_to_wf:
  "wf_buffer s \<Longrightarrow> move_cursor_to s index = Some s' \<Longrightarrow> wf_buffer s'"
  by (auto simp: move_cursor_to_def gap_id_def split: if_splits
      dest: move_cursor_right_wf move_cursor_left_wf)

lemma gap_advance_wf: "wf_buffer s \<Longrightarrow> gap_advance s n = Some s' \<Longrightarrow> wf_buffer s'"
  by (auto simp: gap_advance_def wf_buffer_def buf_size_def split: if_splits)

lemma remove_wf: "wf_buffer s \<Longrightarrow> remove s index count = Some s' \<Longrightarrow> wf_buffer s'"
  by (auto simp: remove_def Let_def int64_neg_def split: if_splits Option.bind_splits
      dest: move_cursor_to_wf gap_advance_wf)

lemma insert_wf:
  assumes "wf_buffer s" "insert_gb s index data = Some s'"
  shows "wf_buffer s'"
proof -
  have "0 \<le> index \<and> index \<le> size_gb s"
    using assms(2) by (auto simp: insert_gb_def split: if_splits)
  then show ?thesis using insert_props[OF assms(1), of index data] assms(2) by auto
qed

lemma reachable_wf: "reachable s \<Longrightarrow> wf_buffer s"
proof (induction rule: reachable.induct)
  case construct
  show ?case by (simp add: wf_buffer_def gap_buffer_init_def buf_size_def)
next
  case (clear s)
  show ?case by (simp add: wf_buffer_def clear_def buf_size_def)
qed (auto simp: insert_elem_def insert_cursor_def insert_cursor_elem_def push_front_def
      push_front_elem_def push_back_def push_back_elem_def remove_prefix_def remove_suffix_def
      split: Option.bind_splits dest: insert_wf remove_wf)

subsection \<open>The cursor, and the first and last element\<close>

lemma cursor_le_size: "wf_buffer s \<Longrightarrow> gap_begin s \<le> size_gb s"
  by (auto simp: wf_buffer_def size_gb_def buf_size_def gap_size_def)

lemma remove_zero_at_cursor:
  "wf_buffer s \<Longrightarrow> remove s (gap_begin s) 0 = Some s"
  by (auto simp: remove_def move_cursor_to_def gap_id_def gap_advance_def wf_buffer_def int64_neg_def
      size_gb_def gap_size_def buf_size_def min_def)

lemma size_gb_nonneg: "wf_buffer s \<Longrightarrow> 0 \<le> size_gb s"
  by (auto simp: wf_buffer_def size_gb_def buf_size_def gap_size_def)

lemma public_operations_return:
  assumes "wf_buffer s"
  shows "0 \<le> index \<Longrightarrow> index \<le> size_gb s \<Longrightarrow> \<exists>s'. insert_gb s index data = Some s'"
    and "0 \<le> index \<Longrightarrow> index \<le> size_gb s \<Longrightarrow> \<exists>s'. insert_elem s index t = Some s'"
    and "\<exists>s'. insert_cursor s data = Some s'"
    and "\<exists>s'. insert_cursor_elem s t = Some s'"
    and "\<exists>s'. push_front s data = Some s'"
    and "\<exists>s'. push_front_elem s t = Some s'"
    and "\<exists>s'. push_back s data = Some s'"
    and "\<exists>s'. push_back_elem s t = Some s'"
    and "0 \<le> index \<Longrightarrow> index \<le> size_gb s \<Longrightarrow> - (2 ^ 63) < count
           \<Longrightarrow> \<exists>s'. remove s index count = Some s'"
    and "- (2 ^ 63) < count \<Longrightarrow> \<exists>s'. remove_prefix s count = Some s'"
    and "- (2 ^ 63) < count \<Longrightarrow> count < 2 ^ 63 \<Longrightarrow> \<exists>s'. remove_suffix s count = Some s'"
proof -
  have i: "\<exists>s'. insert_gb s j d = Some s'" if "0 \<le> j" "j \<le> size_gb s" for j d
    using insert_props[OF assms that] by blast
  have r: "\<exists>s'. remove s j c = Some s'" if "0 \<le> j" "j \<le> size_gb s" "- (2 ^ 63) < c" for j c
    using remove_props[OF assms that] by blast
  have n: "0 \<le> size_gb s" and g: "0 \<le> gap_begin s" "gap_begin s \<le> size_gb s"
    using assms size_gb_nonneg cursor_le_size by (auto simp: wf_buffer_def)
  show "0 \<le> index \<Longrightarrow> index \<le> size_gb s \<Longrightarrow> \<exists>s'. insert_gb s index data = Some s'"
    by (rule i)
  show "0 \<le> index \<Longrightarrow> index \<le> size_gb s \<Longrightarrow> \<exists>s'. insert_elem s index t = Some s'"
    unfolding insert_elem_def by (rule i)
  show "\<exists>s'. insert_cursor s data = Some s'"
    unfolding insert_cursor_def gap_id_def fst_conv by (rule i[OF g])
  show "\<exists>s'. insert_cursor_elem s t = Some s'"
    unfolding insert_cursor_elem_def insert_elem_def gap_id_def fst_conv by (rule i[OF g])
  show "\<exists>s'. push_front s data = Some s'"
    unfolding push_front_def using n by (intro i) simp_all
  show "\<exists>s'. push_front_elem s t = Some s'"
    unfolding push_front_elem_def insert_elem_def using n by (intro i) simp_all
  show "\<exists>s'. push_back s data = Some s'"
    unfolding push_back_def using n by (intro i) simp_all
  show "\<exists>s'. push_back_elem s t = Some s'"
    unfolding push_back_elem_def insert_elem_def using n by (intro i) simp_all
  show "0 \<le> index \<Longrightarrow> index \<le> size_gb s \<Longrightarrow> - (2 ^ 63) < count
           \<Longrightarrow> \<exists>s'. remove s index count = Some s'"
    by (rule r)
  show "- (2 ^ 63) < count \<Longrightarrow> \<exists>s'. remove_prefix s count = Some s'"
    unfolding remove_prefix_def using n by (intro r) simp_all
  show "\<exists>s'. remove_suffix s count = Some s'" if "- (2 ^ 63) < count" "count < 2 ^ 63"
  proof -
    have "\<exists>s'. remove s (size_gb s) (- count) = Some s'"
      using n that(2) by (intro r) simp_all
    then show ?thesis using that(1) by (simp add: remove_suffix_def int64_neg_Some)
  qed
qed

text \<open>
  The revision with the doc comments removes, for a negative count, the run that ends
  with the element at \<open>index\<close> itself; the modelled revision removes the run that ends
  just before it.
\<close>

lemma remove_rev2_differs:
  "map_option view (remove_rev2 \<lparr>buf = [1, 2, 3, 4, 5, 0, 0, 0 :: nat], gap_begin = 5, gap_end = 8\<rparr> 3 (- 1))
     = Some [1, 2, 3, 5]
   \<and> map_option view (remove \<lparr>buf = [1, 2, 3, 4, 5, 0, 0, 0 :: nat], gap_begin = 5, gap_end = 8\<rparr> 3 (- 1))
     = Some [1, 2, 4, 5]"
  by code_simp

text \<open>All seventeen checks of \<^verbatim>\<open>test()\<close> come out true in the model.\<close>

lemma main_test_passes: "main_test = Some (replicate 17 True)"
  by code_simp

text \<open>
  \<^verbatim>\<open>back()\<close> is the last element of the content in every position of the gap, and so
  is the first element for the \<^verbatim>\<open>front()\<close> that ends in \<^verbatim>\<open>*(_gap.end())\<close>. The
  \<^verbatim>\<open>front()\<close> that ends in \<^verbatim>\<open>*(_gap.end() + 1)\<close> agrees with it unless a non-empty gap
  begins at offset 0; there it reads one position further.
\<close>

lemma back_is_last:
  assumes "wf_buffer s" "view s \<noteq> []"
  shows "back_gb s = Some (last (view s))"
proof -
  obtain g e where ge: "gap_begin s = int g" "gap_end s = int e"
    using assms(1) by (metis wf_buffer_def nonneg_int_cases order_trans)
  have b: "g \<le> e" "e \<le> length (buf s)"
    using assms(1) by (auto simp: wf_buffer_def ge buf_size_def)
  have v: "view s = take g (buf s) @ drop e (buf s)" by (simp add: view_def gap_id_def ge)
  show ?thesis
  proof (cases "e = length (buf s)")
    case True
    then have v': "view s = take g (buf s)" "0 < g" using v assms(2) by auto
    have "take g (buf s) \<noteq> []" using v' assms(2) by simp
    then have "last (take g (buf s)) = take g (buf s) ! (length (take g (buf s)) - 1)"
      by (rule last_conv_nth)
    also have "\<dots> = buf s ! (g - 1)" using b v'(2) by (simp add: min_absorb2)
    finally have "last (view s) = buf s ! (g - 1)" by (simp add: v'(1))
    then show ?thesis
      using True b v'(2) by (auto simp: back_gb_def deref_def ge buf_size_def nat_diff_distrib')
  next
    case False
    then have "drop e (buf s) \<noteq> []" using b by simp
    then have "last (view s) = last (buf s)" by (simp add: v)
    also have "\<dots> = buf s ! (length (buf s) - 1)"
      using False b by (intro last_conv_nth) auto
    finally show ?thesis
      using False b by (auto simp: back_gb_def deref_def ge buf_size_def nat_diff_distrib')
  qed
qed

lemma front_rev2_is_first:
  assumes "wf_buffer s" "view s \<noteq> []"
  shows "front_rev2 s = Some (hd (view s))"
proof -
  obtain g e where ge: "gap_begin s = int g" "gap_end s = int e"
    using assms(1) by (metis wf_buffer_def nonneg_int_cases order_trans)
  have b: "g \<le> e" "e \<le> length (buf s)"
    using assms(1) by (auto simp: wf_buffer_def ge buf_size_def)
  have v: "view s = take g (buf s) @ drop e (buf s)" by (simp add: view_def gap_id_def ge)
  show ?thesis
  proof (cases "g = 0")
    case True
    then have "e < length (buf s)" using v assms(2) b by (cases "e = length (buf s)") auto
    then show ?thesis
      using True by (auto simp: front_rev2_def deref_def ge v hd_drop_conv_nth hd_conv_nth)
  next
    case False
    then have "buf s \<noteq> []" using b by auto
    then show ?thesis
      using False b by (auto simp: front_rev2_def deref_def ge v hd_conv_nth nth_append)
  qed
qed

lemma front_is_first_unless_gap_at_start:
  assumes "wf_buffer s" "view s \<noteq> []" "gap_begin s \<noteq> 0 \<or> gap_begin s = gap_end s"
  shows "front s = Some (hd (view s))"
  using front_rev2_is_first[OF assms(1,2)] assms(3) by (auto simp: front_def front_rev2_def)

lemma front_gap_at_start:
  assumes "gap_begin s = 0" "0 < gap_end s"
  shows "front s = deref (buf s) (gap_end s + 1)"
  using assms by (simp add: front_def)

lemma front_out_of_bounds_single_element:
  "remove_prefix \<lparr>buf = [1, 2, 0, 0 :: nat], gap_begin = 2, gap_end = 4\<rparr> 1
     = Some \<lparr>buf = [1, 2, 0, 2], gap_begin = 0, gap_end = 3\<rparr>
   \<and> view \<lparr>buf = [1, 2, 0, 2 :: nat], gap_begin = 0, gap_end = 3\<rparr> = [2]
   \<and> front \<lparr>buf = [1, 2, 0, 2 :: nat], gap_begin = 0, gap_end = 3\<rparr> = None"
  by code_simp

lemma clear_state: "clear s = \<lparr>buf = [], gap_begin = 0, gap_end = 0\<rparr>"
  by (simp add: clear_def)

subsection \<open>The claims\<close>

text \<open>
  C1: on a buffer with content \<open>C\<close> of size \<open>n\<close> and for \<open>0 \<le> i \<le> n\<close>,
  \<^verbatim>\<open>insert(i, data)\<close> returns, the content afterwards is \<open>C[0:i] + data + C[i:n]\<close> (so no
  other element moves) and \<^verbatim>\<open>size()\<close> is \<open>n + |data|\<close>.
\<close>

theorem insert_content_law:
  assumes "wf_buffer s" "0 \<le> i" "i \<le> size_gb s"
  shows "\<exists>s'. insert_gb s i data = Some s'
           \<and> view s' = take (nat i) (view s) @ data @ drop (nat i) (view s)
           \<and> size_gb s' = size_gb s + int (length data)"
proof -
  obtain s' where s': "insert_gb s i data = Some s'" "wf_buffer s'"
      "view s' = take (nat i) (view s) @ data @ drop (nat i) (view s)"
    using insert_props[OF assms] by blast
  have "size_gb s' = size_gb s + int (length data)"
    using assms(1) s'(2) by (simp add: size_gb_view s'(3))
  then show ?thesis using s' by simp
qed

theorem insert_content_law_witness:
  "wf_buffer \<lparr>buf = [10, 20, 0, 0, 30 :: nat], gap_begin = 2, gap_end = 4\<rparr>
   \<and> size_gb \<lparr>buf = [10, 20, 0, 0, 30 :: nat], gap_begin = 2, gap_end = 4\<rparr> = 3
   \<and> view \<lparr>buf = [10, 20, 0, 0, 30 :: nat], gap_begin = 2, gap_end = 4\<rparr> = [10, 20, 30]
   \<and> (\<exists>s'. insert_gb \<lparr>buf = [10, 20, 0, 0, 30 :: nat], gap_begin = 2, gap_end = 4\<rparr> 1 [7, 8]
               = Some s'
           \<and> view s' = [10, 7, 8, 20, 30] \<and> size_gb s' = 5)"
proof -
  let ?s = "\<lparr>buf = [10, 20, 0, 0, 30 :: nat], gap_begin = 2, gap_end = 4\<rparr>"
  have h: "wf_buffer ?s" "(0::int) \<le> 1" "1 \<le> size_gb ?s"
    and v: "view ?s = [10, 20, 30]" "size_gb ?s = 3"
    by (simp_all add: wf_buffer_def size_gb_def buf_size_def gap_size_def view_def gap_id_def)
  show ?thesis
    using insert_content_law[OF h, of "[7, 8]"] h(1) by (simp add: v)
qed

text \<open>
  C2: for \<open>0 \<le> i \<le> n\<close> and a count \<open>k \<ge> 0\<close>, \<^verbatim>\<open>remove(i, k)\<close> clamps the count to
  \<open>k' = min k (n - i)\<close> and leaves the content \<open>C[0:i] + C[i+k':n]\<close> of size \<open>n - k'\<close>; a
  count that reaches past the end removes only up to the end.
\<close>

theorem remove_nonneg_content_law:
  assumes "wf_buffer s" "0 \<le> i" "i \<le> size_gb s" "0 \<le> k"
  shows "\<exists>s'. remove s i k = Some s'
           \<and> view s' = take (nat i) (view s) @ drop (nat (i + min k (size_gb s - i))) (view s)
           \<and> size_gb s' = size_gb s - min k (size_gb s - i)
           \<and> (size_gb s - i \<le> k \<longrightarrow> view s' = take (nat i) (view s))"
proof -
  obtain s' where s': "remove s i k = Some s'" "wf_buffer s'"
      "view s' = take (nat i) (view s) @ drop (nat (i + min k (size_gb s - i))) (view s)"
    using remove_props[OF assms(1-3), of k] assms(4) by auto
  have n: "size_gb s = int (length (view s))" using assms(1) by (rule size_gb_view)
  have "size_gb s' = size_gb s - min k (size_gb s - i)"
    using assms(2-4) unfolding size_gb_view[OF s'(2)] s'(3) n by auto
  moreover have "view s' = take (nat i) (view s)" if "size_gb s - i \<le> k"
    using that assms(2,3) unfolding s'(3) n by (simp add: min_absorb2)
  ultimately show ?thesis using s' by blast
qed

theorem remove_nonneg_content_law_witness:
  "wf_buffer \<lparr>buf = [10, 20, 0, 0, 30 :: nat], gap_begin = 2, gap_end = 4\<rparr>
   \<and> size_gb \<lparr>buf = [10, 20, 0, 0, 30 :: nat], gap_begin = 2, gap_end = 4\<rparr> = 3
   \<and> view \<lparr>buf = [10, 20, 0, 0, 30 :: nat], gap_begin = 2, gap_end = 4\<rparr> = [10, 20, 30]
   \<and> (\<exists>s'. remove \<lparr>buf = [10, 20, 0, 0, 30 :: nat], gap_begin = 2, gap_end = 4\<rparr> 1 100
               = Some s'
           \<and> view s' = [10] \<and> size_gb s' = 1)"
proof -
  let ?s = "\<lparr>buf = [10, 20, 0, 0, 30 :: nat], gap_begin = 2, gap_end = 4\<rparr>"
  have h: "wf_buffer ?s" "(0::int) \<le> 1" "1 \<le> size_gb ?s" "(0::int) \<le> 100"
    and v: "view ?s = [10, 20, 30]" "size_gb ?s = 3"
    by (simp_all add: wf_buffer_def size_gb_def buf_size_def gap_size_def view_def gap_id_def)
  show ?thesis
    using remove_nonneg_content_law[OF h] h(1) by (auto simp: v)
qed

text \<open>
  For a negative count whose negation is representable, \<^verbatim>\<open>remove(i, count)\<close> with
  \<open>0 \<le> i \<le> n\<close> clamps the magnitude to \<open>k' = min |count| i\<close> and deletes the \<open>k'\<close>
  elements that end at index \<open>i\<close>: the content afterwards is \<open>C[0:i-k'] + C[i:n]\<close>.
  At the least \<^verbatim>\<open>int64_t\<close> value the negation inside \<^verbatim>\<open>remove\<close> overflows, for every index.
\<close>

lemma remove_negative_content_in_range:
  assumes "wf_buffer s" "0 \<le> i" "i \<le> size_gb s" "count < 0" "- (2 ^ 63) < count"
  shows "\<exists>s'. remove s i count = Some s'
           \<and> view s' = take (nat (i - min (- count) i)) (view s) @ drop (nat i) (view s)
           \<and> size_gb s' = size_gb s - min (- count) i"
proof -
  obtain s' where s': "remove s i count = Some s'" "wf_buffer s'"
      "view s' = take (nat (i - min (- count) i)) (view s) @ drop (nat i) (view s)"
    using remove_props[OF assms(1-3,5)] assms(4) by auto
  have n: "size_gb s = int (length (view s))" using assms(1) by (rule size_gb_view)
  have "size_gb s' = size_gb s - min (- count) i"
    using assms(2-4) unfolding size_gb_view[OF s'(2)] s'(3) n by auto
  then show ?thesis using s' by blast
qed

lemma remove_least_count_undefined:
  "count \<le> - (2 ^ 63) \<Longrightarrow> remove s index count = None"
  by (simp add: remove_def int64_neg_def)

text \<open>
  C3 (for \<open>0 \<le> i \<le> n\<close> and every count \<open>< 0\<close>, \<^verbatim>\<open>remove(i, count)\<close> clamps the magnitude to
  \<open>k' = min |count| i\<close> and leaves \<open>C[0:i-k'] + C[i:n]\<close>) does not hold at the count
  \<open>- 2 ^ 63\<close>: after \<^verbatim>\<open>push_back\<close> of 1, 2, 3 the call \<^verbatim>\<open>remove(3, INT64_MIN)\<close> evaluates
  \<^verbatim>\<open>-count\<close>, which overflows, where the claim has the three elements deleted. The next
  count, \<open>- 2 ^ 63 + 1\<close>, deletes them.
\<close>

theorem remove_least_count_overflows:
  "push_back gap_buffer_init [1, 2, 3 :: nat]
     = Some \<lparr>buf = [1, 2, 3, 0, 0, 0], gap_begin = 3, gap_end = 6\<rparr>
   \<and> size_gb \<lparr>buf = [1, 2, 3, 0, 0, 0 :: nat], gap_begin = 3, gap_end = 6\<rparr> = 3
   \<and> view \<lparr>buf = [1, 2, 3, 0, 0, 0 :: nat], gap_begin = 3, gap_end = 6\<rparr> = [1, 2, 3]
   \<and> int64_neg (- (2 ^ 63)) = None
   \<and> remove \<lparr>buf = [1, 2, 3, 0, 0, 0 :: nat], gap_begin = 3, gap_end = 6\<rparr> 3 (- (2 ^ 63)) = None
   \<and> map_option view
         (remove \<lparr>buf = [1, 2, 3, 0, 0, 0 :: nat], gap_begin = 3, gap_end = 6\<rparr> 3 (- (2 ^ 63) + 1))
       = Some []"
  by code_simp

text \<open>
  C4 (\<^verbatim>\<open>front()\<close> returns the first and \<^verbatim>\<open>back()\<close> the last element of the content in
  every position of the gap) does not hold for \<^verbatim>\<open>front()\<close> when a non-empty gap begins at
  offset 0 of the backing store: after \<^verbatim>\<open>push_back\<close> of 1, 2, 3 and \<^verbatim>\<open>remove_prefix(1)\<close> the
  content is 2, 3 and \<^verbatim>\<open>front()\<close> returns 3, the element behind the first one. The
  \<^verbatim>\<open>front()\<close> that ends in \<^verbatim>\<open>*(_gap.end())\<close> returns 2, and \<^verbatim>\<open>back()\<close> returns 3, the last
  element.
\<close>

theorem front_off_by_one_when_gap_at_start:
  "push_back gap_buffer_init [1, 2, 3 :: nat]
     = Some \<lparr>buf = [1, 2, 3, 0, 0, 0], gap_begin = 3, gap_end = 6\<rparr>
   \<and> remove_prefix \<lparr>buf = [1, 2, 3, 0, 0, 0 :: nat], gap_begin = 3, gap_end = 6\<rparr> 1
     = Some \<lparr>buf = [1, 2, 3, 0, 2, 3], gap_begin = 0, gap_end = 4\<rparr>
   \<and> view \<lparr>buf = [1, 2, 3, 0, 2, 3 :: nat], gap_begin = 0, gap_end = 4\<rparr> = [2, 3]
   \<and> front \<lparr>buf = [1, 2, 3, 0, 2, 3 :: nat], gap_begin = 0, gap_end = 4\<rparr> = Some 3
   \<and> front_rev2 \<lparr>buf = [1, 2, 3, 0, 2, 3 :: nat], gap_begin = 0, gap_end = 4\<rparr> = Some 2
   \<and> back_gb \<lparr>buf = [1, 2, 3, 0, 2, 3 :: nat], gap_begin = 0, gap_end = 4\<rparr> = Some 3"
  by code_simp

text \<open>
  C5: \<^verbatim>\<open>enlarge_by_at_least(n)\<close> changes nothing when \<open>n \<le> 0\<close>. Otherwise the backing
  store gets the length \<open>2 * max n old_capacity\<close>, the gap keeps its begin, its end becomes
  \<open>new_capacity - (old_capacity - old_gap_end)\<close>, the elements right of the old gap are the
  rightmost elements of the new store, and the logical content is the same.
\<close>

theorem enlarge_by_at_least_growth:
  assumes "wf_buffer s"
  shows "\<exists>s'. enlarge_by_at_least s n = Some s'
           \<and> (if n \<le> 0 then s' = s
                else buf_size s' = 2 * max n (buf_size s)
                   \<and> gap_begin s' = gap_begin s
                   \<and> gap_end s' = buf_size s' - (buf_size s - gap_end s)
                   \<and> drop (nat (gap_end s')) (buf s') = drop (nat (gap_end s)) (buf s))
           \<and> view s' = view s"
proof (cases "n \<le> 0")
  case True
  then show ?thesis by simp
next
  case False
  obtain s' where s': "enlarge_by_at_least s n = Some s'" "wf_buffer s'" "view s' = view s"
      "gap_begin s' = gap_begin s" "buf_size s' = 2 * max n (buf_size s)"
      "gap_end s' = buf_size s' - (buf_size s - gap_end s)"
    using enlarge_props[OF assms, of n] False by auto
  have "nat (gap_begin s') \<le> length (buf s')" "nat (gap_begin s) \<le> length (buf s)"
    using assms s'(2) by (auto simp: wf_buffer_def buf_size_def)
  then have l: "length (take (nat (gap_begin s')) (buf s')) = length (take (nat (gap_begin s)) (buf s))"
    by (simp add: s'(4))
  have "take (nat (gap_begin s')) (buf s') @ drop (nat (gap_end s')) (buf s')
      = take (nat (gap_begin s)) (buf s) @ drop (nat (gap_end s)) (buf s)"
    using s'(3) by (simp add: view_def gap_id_def)
  then have "drop (nat (gap_end s')) (buf s') = drop (nat (gap_end s)) (buf s)"
    using l by simp
  then show ?thesis using False s' by simp
qed

theorem enlarge_by_at_least_growth_witness:
  "wf_buffer \<lparr>buf = [10, 20, 0, 0, 30 :: nat], gap_begin = 2, gap_end = 4\<rparr>
   \<and> enlarge_by_at_least \<lparr>buf = [10, 20, 0, 0, 30 :: nat], gap_begin = 2, gap_end = 4\<rparr> 0
       = Some \<lparr>buf = [10, 20, 0, 0, 30], gap_begin = 2, gap_end = 4\<rparr>
   \<and> (\<exists>s'. enlarge_by_at_least \<lparr>buf = [10, 20, 0, 0, 30 :: nat], gap_begin = 2, gap_end = 4\<rparr> 3
               = Some s'
           \<and> buf_size s' = 10 \<and> gap_begin s' = 2 \<and> gap_end s' = 9
           \<and> drop 9 (buf s') = [30] \<and> view s' = [10, 20, 30])"
proof -
  let ?s = "\<lparr>buf = [10, 20, 0, 0, 30 :: nat], gap_begin = 2, gap_end = 4\<rparr>"
  have h: "wf_buffer ?s" and v: "view ?s = [10, 20, 30]" "buf_size ?s = 5"
    by (simp_all add: wf_buffer_def buf_size_def view_def gap_id_def)
  show ?thesis
    using enlarge_by_at_least_growth[OF h, of 3] enlarge_by_at_least_growth[OF h, of 0] h
    by (auto simp: v)
qed

text \<open>
  C6: in every state reached by the public operations (all forms of \<^verbatim>\<open>insert\<close>,
  \<^verbatim>\<open>push_front\<close>, \<^verbatim>\<open>push_back\<close>, \<^verbatim>\<open>remove\<close>, \<^verbatim>\<open>remove_prefix\<close>, \<^verbatim>\<open>remove_suffix\<close>,
  \<^verbatim>\<open>clear\<close>) the gap satisfies \<open>0 \<le> gap_begin \<le> gap_end \<le> length of the backing store\<close>,
  and \<^verbatim>\<open>size()\<close> is the length of the backing store minus \<open>gap_end - gap_begin\<close>, hence
  not negative.
\<close>

theorem gap_invariant_after_public_operations:
  assumes "reachable s"
  shows "0 \<le> gap_begin s \<and> gap_begin s \<le> gap_end s \<and> gap_end s \<le> int (length (buf s))
       \<and> size_gb s = int (length (buf s)) - (gap_end s - gap_begin s) \<and> 0 \<le> size_gb s"
  using reachable_wf[OF assms]
  by (auto simp: wf_buffer_def size_gb_def buf_size_def gap_size_def)

theorem gap_invariant_after_public_operations_witness:
  "reachable \<lparr>buf = [1, 2, 3, 0, 2, 3 :: nat], gap_begin = 0, gap_end = 4\<rparr>
   \<and> size_gb \<lparr>buf = [1, 2, 3, 0, 2, 3 :: nat], gap_begin = 0, gap_end = 4\<rparr> = 2"
proof -
  have "reachable (gap_buffer_init :: nat gap_buffer)" by (rule reachable.construct)
  moreover have "push_back gap_buffer_init [1, 2, 3 :: nat]
      = Some \<lparr>buf = [1, 2, 3, 0, 0, 0], gap_begin = 3, gap_end = 6\<rparr>"
    by code_simp
  ultimately have "reachable \<lparr>buf = [1, 2, 3, 0, 0, 0 :: nat], gap_begin = 3, gap_end = 6\<rparr>"
    by (rule reachable.push_back)
  moreover have "remove_prefix \<lparr>buf = [1, 2, 3, 0, 0, 0 :: nat], gap_begin = 3, gap_end = 6\<rparr> 1
      = Some \<lparr>buf = [1, 2, 3, 0, 2, 3], gap_begin = 0, gap_end = 4\<rparr>"
    by code_simp
  ultimately have r: "reachable \<lparr>buf = [1, 2, 3, 0, 2, 3 :: nat], gap_begin = 0, gap_end = 4\<rparr>"
    by (rule reachable.remove_prefix)
  show ?thesis
    using gap_invariant_after_public_operations[OF r] r by simp
qed

text \<open>
  C7: whatever the state before, \<^verbatim>\<open>clear()\<close> leaves a buffer with \<^verbatim>\<open>size() == 0\<close> and
  \<^verbatim>\<open>empty()\<close> true, and a second \<^verbatim>\<open>clear()\<close> changes nothing any more.
\<close>

theorem clear_idempotent:
  "size_gb (clear s) = 0 \<and> empty_gb (clear s) \<and> clear (clear s) = clear s"
  by (simp add: clear_state size_gb_def empty_gb_def buf_size_def gap_size_def)

text \<open>
  C8, as stated (\<^verbatim>\<open>remove(i, 0)\<close> is a no-op that leaves the buffer unchanged), fails:
  after \<^verbatim>\<open>push_back\<close> of two elements the cursor is at 2, and \<^verbatim>\<open>remove(0, 0)\<close> moves the
  gap to the front of the backing store. The cursor is then 0, and the cursor form of
  \<^verbatim>\<open>insert\<close> puts its data in front of the content instead of behind it.
\<close>

theorem remove_zero_moves_cursor:
  "push_back gap_buffer_init [1, 2 :: nat]
     = Some \<lparr>buf = [1, 2, 0, 0], gap_begin = 2, gap_end = 4\<rparr>
   \<and> size_gb \<lparr>buf = [1, 2, 0, 0 :: nat], gap_begin = 2, gap_end = 4\<rparr> = 2
   \<and> remove \<lparr>buf = [1, 2, 0, 0 :: nat], gap_begin = 2, gap_end = 4\<rparr> 0 0
     = Some \<lparr>buf = [1, 2, 1, 2], gap_begin = 0, gap_end = 2\<rparr>
   \<and> remove \<lparr>buf = [1, 2, 0, 0 :: nat], gap_begin = 2, gap_end = 4\<rparr> 0 0
     \<noteq> Some \<lparr>buf = [1, 2, 0, 0], gap_begin = 2, gap_end = 4\<rparr>
   \<and> map_option view (insert_cursor \<lparr>buf = [1, 2, 0, 0 :: nat], gap_begin = 2, gap_end = 4\<rparr> [9])
     = Some [1, 2, 9]
   \<and> map_option view (insert_cursor \<lparr>buf = [1, 2, 1, 2 :: nat], gap_begin = 0, gap_end = 2\<rparr> [9])
     = Some [9, 1, 2]"
  by code_simp

text \<open>
  C8, amended: for \<open>0 \<le> i \<le> size()\<close>, \<^verbatim>\<open>remove(i, 0)\<close> leaves the logical content,
  \<^verbatim>\<open>size()\<close> and the length of the backing store unchanged, and moves the cursor to \<open>i\<close>.
\<close>

theorem remove_zero_keeps_content:
  assumes "wf_buffer s" "0 \<le> i" "i \<le> size_gb s"
  shows "\<exists>s'. remove s i 0 = Some s' \<and> view s' = view s \<and> size_gb s' = size_gb s
           \<and> length (buf s') = length (buf s) \<and> gap_begin s' = i"
proof -
  obtain s' where s': "remove s i 0 = Some s'" "wf_buffer s'"
      "length (buf s') = length (buf s)" "gap_begin s' = i"
      "view s' = take (nat i) (view s) @ drop (nat (i + min 0 (size_gb s - i))) (view s)"
    using remove_props[OF assms, of 0] by auto
  have "min 0 (size_gb s - i) = 0" using assms(3) by simp
  then have v: "view s' = view s" using s'(5) by simp
  then have "size_gb s' = size_gb s" using assms(1) s'(2) by (simp add: size_gb_view)
  then show ?thesis using s' v by simp
qed

theorem remove_zero_keeps_content_witness:
  "wf_buffer \<lparr>buf = [10, 20, 0, 0 :: nat], gap_begin = 2, gap_end = 4\<rparr>
   \<and> size_gb \<lparr>buf = [10, 20, 0, 0 :: nat], gap_begin = 2, gap_end = 4\<rparr> = 2
   \<and> view \<lparr>buf = [10, 20, 0, 0 :: nat], gap_begin = 2, gap_end = 4\<rparr> = [10, 20]
   \<and> (\<exists>s'. remove \<lparr>buf = [10, 20, 0, 0 :: nat], gap_begin = 2, gap_end = 4\<rparr> 0 0 = Some s'
          \<and> view s' = [10, 20] \<and> size_gb s' = 2 \<and> length (buf s') = 4 \<and> gap_begin s' = 0)"
proof -
  let ?s = "\<lparr>buf = [10, 20, 0, 0 :: nat], gap_begin = 2, gap_end = 4\<rparr>"
  have h: "wf_buffer ?s" "(0::int) \<le> 0" "0 \<le> size_gb ?s"
    and v: "view ?s = [10, 20]" "size_gb ?s = 2"
    by (simp_all add: wf_buffer_def size_gb_def buf_size_def gap_size_def view_def gap_id_def)
  show ?thesis
    using remove_zero_keeps_content[OF h] h(1) by (auto simp: v)
qed

text \<open>
  C9: after \<^verbatim>\<open>insert(index, data)\<close> with \<open>0 \<le> index \<le> size()\<close> the cursor
  (\<open>gap_begin\<close>) is \<open>index + |data|\<close>, so the cursor form \<^verbatim>\<open>insert(data2)\<close> called next
  puts \<open>data2\<close> directly behind the run just inserted.
\<close>

theorem insert_leaves_cursor_after_data:
  assumes "wf_buffer s" "0 \<le> index" "index \<le> size_gb s"
  shows "\<exists>s'. insert_gb s index data = Some s'
           \<and> gap_begin s' = index + int (length data)
           \<and> (\<exists>s''. insert_cursor s' data2 = Some s''
                  \<and> view s'' = take (nat index) (view s) @ data @ data2 @ drop (nat index) (view s))"
proof -
  obtain s' where s': "insert_gb s index data = Some s'" "wf_buffer s'"
      "view s' = take (nat index) (view s) @ data @ drop (nat index) (view s)"
      "gap_begin s' = index + int (length data)"
    using insert_props[OF assms] by blast
  have c: "0 \<le> gap_begin s'" "gap_begin s' \<le> size_gb s'"
    using s'(2) cursor_le_size by (auto simp: wf_buffer_def)
  obtain s'' where s'': "insert_gb s' (gap_begin s') data2 = Some s''"
      "view s'' = take (nat (gap_begin s')) (view s') @ data2 @ drop (nat (gap_begin s')) (view s')"
    using insert_props[OF s'(2) c] by blast
  have n: "nat index \<le> length (view s)"
    using assms by (simp add: size_gb_view)
  define p where "p = take (nat index) (view s) @ data"
  have p: "view s' = p @ drop (nat index) (view s)" "length p = nat (gap_begin s')"
    using n assms(2) by (simp_all add: p_def s'(3,4) min_absorb2 nat_add_distrib)
  have "take (nat (gap_begin s')) (view s') = p"
    "drop (nat (gap_begin s')) (view s') = drop (nat index) (view s)"
    by (simp_all add: p(1) p(2)[symmetric])
  then have "take (nat (gap_begin s')) (view s') = take (nat index) (view s) @ data"
    "drop (nat (gap_begin s')) (view s') = drop (nat index) (view s)"
    by (simp_all add: p_def)
  then have "view s'' = take (nat index) (view s) @ data @ data2 @ drop (nat index) (view s)"
    using s''(2) by simp
  then show ?thesis using s' s''(1) by (simp add: insert_cursor_def gap_id_def)
qed

theorem insert_leaves_cursor_after_data_witness:
  "wf_buffer \<lparr>buf = [10, 20, 0, 0, 30 :: nat], gap_begin = 2, gap_end = 4\<rparr>
   \<and> size_gb \<lparr>buf = [10, 20, 0, 0, 30 :: nat], gap_begin = 2, gap_end = 4\<rparr> = 3
   \<and> view \<lparr>buf = [10, 20, 0, 0, 30 :: nat], gap_begin = 2, gap_end = 4\<rparr> = [10, 20, 30]
   \<and> (\<exists>s'. insert_gb \<lparr>buf = [10, 20, 0, 0, 30 :: nat], gap_begin = 2, gap_end = 4\<rparr> 1 [7, 8]
               = Some s'
           \<and> gap_begin s' = 3
           \<and> (\<exists>s''. insert_cursor s' [9] = Some s'' \<and> view s'' = [10, 7, 8, 9, 20, 30]))"
proof -
  let ?s = "\<lparr>buf = [10, 20, 0, 0, 30 :: nat], gap_begin = 2, gap_end = 4\<rparr>"
  have h: "wf_buffer ?s" "(0::int) \<le> 1" "1 \<le> size_gb ?s"
    and v: "view ?s = [10, 20, 30]" "size_gb ?s = 3"
    by (simp_all add: wf_buffer_def size_gb_def buf_size_def gap_size_def view_def gap_id_def)
  show ?thesis
    using insert_leaves_cursor_after_data[OF h, of "[7, 8]" "[9]"] h(1) by (auto simp: v)
qed

text \<open>
  C10: for an index and a count that \<^verbatim>\<open>remove\<close> accepts (an index in \<open>[0, size()]\<close>, a count
  of either sign whose negation is representable), \<^verbatim>\<open>remove\<close> leaves the length of the
  backing store as it is: the cursor relocation inside \<^verbatim>\<open>remove\<close> does not grow the store,
  and the deleted elements (the clamped count) are added to the gap.
\<close>

theorem remove_keeps_backing_store:
  assumes "wf_buffer s" "0 \<le> index" "index \<le> size_gb s" "- (2 ^ 63) < count"
  shows "\<exists>s1 s'. move_cursor_to s (if 0 \<le> count then index + min count (size_gb s - index)
                                     else index) = Some s1
           \<and> length (buf s1) = length (buf s)
           \<and> remove s index count = Some s'
           \<and> length (buf s') = length (buf s)
           \<and> gap_size s' = gap_size s + (if 0 \<le> count then min count (size_gb s - index)
                                          else min (- count) index)"
proof -
  define target where
    "target = (if 0 \<le> count then index + min count (size_gb s - index) else index)"
  have t: "0 \<le> target" "target \<le> size_gb s" using assms(2,3) by (auto simp: target_def)
  obtain s1 where s1: "move_cursor_to s target = Some s1" "length (buf s1) = length (buf s)"
    using move_cursor_to_props[OF assms(1) t] by blast
  obtain s' where s': "remove s index count = Some s'" "wf_buffer s'"
      "length (buf s') = length (buf s)"
      "view s' = (if 0 \<le> count
                then take (nat index) (view s)
                     @ drop (nat (index + min count (size_gb s - index))) (view s)
                else take (nat (index - min (- count) index)) (view s)
                     @ drop (nat index) (view s))"
    using remove_props[OF assms] by blast
  have n: "size_gb s = int (length (view s))" using assms(1) by (rule size_gb_view)
  have "size_gb s' = size_gb s - (if 0 \<le> count then min count (size_gb s - index)
                                          else min (- count) index)"
    using assms(2,3) unfolding size_gb_view[OF s'(2)] s'(4) n by auto
  then have "gap_size s' = gap_size s + (if 0 \<le> count then min count (size_gb s - index)
                                          else min (- count) index)"
    using s'(3) by (simp add: size_gb_def buf_size_def)
  then show ?thesis using s1 s'(1,3) unfolding target_def by blast
qed

theorem remove_keeps_backing_store_witness:
  "wf_buffer \<lparr>buf = [10, 20, 0, 0, 30 :: nat], gap_begin = 2, gap_end = 4\<rparr>
   \<and> size_gb \<lparr>buf = [10, 20, 0, 0, 30 :: nat], gap_begin = 2, gap_end = 4\<rparr> = 3
   \<and> (\<exists>s1 s'. move_cursor_to \<lparr>buf = [10, 20, 0, 0, 30 :: nat], gap_begin = 2, gap_end = 4\<rparr> 3
               = Some s1
           \<and> length (buf s1) = 5
           \<and> remove \<lparr>buf = [10, 20, 0, 0, 30 :: nat], gap_begin = 2, gap_end = 4\<rparr> 3 (- 2)
               = Some s'
           \<and> length (buf s') = 5 \<and> gap_size s' = 4)"
proof -
  let ?s = "\<lparr>buf = [10, 20, 0, 0, 30 :: nat], gap_begin = 2, gap_end = 4\<rparr>"
  have h: "wf_buffer ?s" "(0::int) \<le> 3" "3 \<le> size_gb ?s" "- (2 ^ 63) < (- 2 :: int)"
    and v: "size_gb ?s = 3" "gap_size ?s = 2"
    by (simp_all add: wf_buffer_def size_gb_def buf_size_def gap_size_def)
  show ?thesis
    using remove_keeps_backing_store[OF h] h(1) by (auto simp: v)
qed

end
